theory Spec2Isabelle
  imports Main "HOL-Library.Word" "HOL-Library.AList" "HOL-Library.Multiset"
begin

unbundle bit_operations_syntax

section \<open>Common data model\<close>

text \<open>
  Byte strings are lists of 8-bit words.  Go's \<open>int\<close> and \<open>int64\<close> values (ids, heights,
  counters, slice indices) are modelled as \<open>int\<close>; where the code packs them into machine
  words (\<open>makeKey\<close>, the \<open>uint32\<close> offsets of a snapshot) the conversion is written out.
  An expression hash (\<open>mavryk.ExprHash\<close>) is a byte string compared with \<open>=\<close>.
\<close>

type_synonym bytes = "8 word list"
type_synonym ExprHash = bytes

text \<open>
  A panic of the Go runtime (index out of range, nil dereference) and an error returned by
  the code are both values of the model.
\<close>

datatype error = Panic string | Error string

text \<open>
  Functions of packages that are not part of the sources at hand are parameters of the model:
  \<open>micheline.KeyHash\<close> (the hash of a serialised key), \<open>model.GetKeyId\<close> (the 64-bit
  key id of a big-map id and a key hash) and \<open>ExprHash.IsValid\<close>.
\<close>

record env =
  micheline_KeyHash :: "bytes \<Rightarrow> ExprHash"
  model_GetKeyId :: "int \<Rightarrow> ExprHash \<Rightarrow> 64 word"
  hash_IsValid :: "ExprHash \<Rightarrow> bool"

text \<open>\<open>model.BigmapValue\<close>: one row of the live-values table.\<close>

record BigmapValue =
  v_RowId :: nat
  v_BigmapId :: int
  v_Height :: int
  v_KeyId :: "64 word"
  v_Key :: bytes
  v_Value :: bytes

section \<open>History snapshots (etl/cache/bigmap.go)\<close>

record BigmapHistory =
  h_BigmapId :: int
  h_Height :: int
  KeyOffsets :: "32 word list"
  ValueOffsets :: "32 word list"
  Data :: bytes

definition Len :: "BigmapHistory \<Rightarrow> int" where
  "Len h = int (length (KeyOffsets h))"

text \<open>
  Go's \<open>xs[i]\<close> and \<open>xs[lo:hi]\<close> panic out of range.  The capacity of a slice is taken
  to be its length.
\<close>

definition index :: "'a list \<Rightarrow> int \<Rightarrow> error + 'a" where
  "index xs i =
     (if 0 \<le> i \<and> i < int (length xs) then Inr (xs ! nat i)
      else Inl (Panic ''index out of range''))"

definition slice :: "'a list \<Rightarrow> int \<Rightarrow> int \<Rightarrow> error + 'a list" where
  "slice xs lo hi =
     (if 0 \<le> lo \<and> lo \<le> hi \<and> hi \<le> int (length xs)
      then Inr (take (nat (hi - lo)) (drop (nat lo) xs))
      else Inl (Panic ''slice bounds out of range''))"

definition bindE :: "error + 'a \<Rightarrow> ('a \<Rightarrow> error + 'b) \<Rightarrow> error + 'b" where
  "bindE m f = (case m of Inl e \<Rightarrow> Inl e | Inr x \<Rightarrow> f x)"

fun mapE :: "('a \<Rightarrow> error + 'b) \<Rightarrow> 'a list \<Rightarrow> error + 'b list" where
  "mapE f [] = Inr []"
| "mapE f (x # xs) = bindE (f x) (\<lambda>y. bindE (mapE f xs) (\<lambda>ys. Inr (y # ys)))"

text \<open>The body of the loop of \<open>BigmapHistory.Range\<close>, for the loop counter \<open>i\<close>.\<close>

definition Range_item :: "env \<Rightarrow> BigmapHistory \<Rightarrow> int \<Rightarrow> int \<Rightarrow> error + BigmapValue" where
  "Range_item E h from i =
     bindE (index (KeyOffsets h) (i + from)) (\<lambda>ko.
     bindE (index (ValueOffsets h) (i + from)) (\<lambda>vo.
     let kStart = uint ko; vStart = uint vo; kEnd = vStart in
     bindE (if i + from < int (length (KeyOffsets h))
            then bindE (index (KeyOffsets h) (i + from + 1)) (\<lambda>ko'. Inr (uint ko'))
            else Inr (int (length (Data h)))) (\<lambda>vEnd.
     bindE (slice (Data h) kStart kEnd) (\<lambda>k.
     bindE (slice (Data h) vStart vEnd) (\<lambda>v.
     Inr \<lparr> v_RowId = nat (i + from + 1),
           v_BigmapId = h_BigmapId h,
           v_Height = 0,
           v_KeyId = model_GetKeyId E (h_BigmapId h) (micheline_KeyHash E k),
           v_Key = k,
           v_Value = v \<rparr>)))))"

definition Range :: "env \<Rightarrow> BigmapHistory \<Rightarrow> int \<Rightarrow> int \<Rightarrow> error + BigmapValue list" where
  "Range E h from to =
     (let to' = (if to < 0 \<or> to \<ge> Len h then Len h - 1 else to) in
      if to' \<le> from then Inr []
      else mapE (Range_item E h from) (map int [0 ..< nat (to' - from)]))"

text \<open>
  The layout of a snapshot as the data model describes it: the \<open>i\<close>-th key runs from
  \<open>KeyOffsets[i]\<close> to \<open>ValueOffsets[i]\<close>, the \<open>i\<close>-th value from there to
  \<open>KeyOffsets[i+1]\<close>, or to the end of the buffer for the last entry.
\<close>

definition key_start :: "BigmapHistory \<Rightarrow> nat \<Rightarrow> nat" where
  "key_start h i = unat (KeyOffsets h ! i)"

definition value_start :: "BigmapHistory \<Rightarrow> nat \<Rightarrow> nat" where
  "value_start h i = unat (ValueOffsets h ! i)"

definition value_end :: "BigmapHistory \<Rightarrow> nat \<Rightarrow> nat" where
  "value_end h i =
     (if Suc i < length (KeyOffsets h) then key_start h (Suc i) else length (Data h))"

definition hist_key :: "BigmapHistory \<Rightarrow> nat \<Rightarrow> bytes" where
  "hist_key h i = take (value_start h i - key_start h i) (drop (key_start h i) (Data h))"

definition hist_value :: "BigmapHistory \<Rightarrow> nat \<Rightarrow> bytes" where
  "hist_value h i = take (value_end h i - value_start h i) (drop (value_start h i) (Data h))"

definition hist_entry :: "env \<Rightarrow> BigmapHistory \<Rightarrow> nat \<Rightarrow> BigmapValue" where
  "hist_entry E h i =
     \<lparr> v_RowId = Suc i,
       v_BigmapId = h_BigmapId h,
       v_Height = 0,
       v_KeyId = model_GetKeyId E (h_BigmapId h) (micheline_KeyHash E (hist_key h i)),
       v_Key = hist_key h i,
       v_Value = hist_value h i \<rparr>"

definition hist_wf :: "BigmapHistory \<Rightarrow> bool" where
  "hist_wf h \<longleftrightarrow>
     length (ValueOffsets h) = length (KeyOffsets h) \<and>
     list_all (\<lambda>i. key_start h i \<le> value_start h i \<and> value_start h i \<le> value_end h i \<and>
                   value_end h i \<le> length (Data h))
       [0 ..< length (KeyOffsets h)]"

subsection \<open>The history cache and \<open>GetBest\<close>\<close>

text \<open>
  The two-queue cache of the library is an association list from packed keys to snapshots;
  eviction and the hit and miss counters are left out.  \<open>makeKey\<close> packs id and height into
  one \<open>int64\<close>; \<open>v>>32\<close> is the arithmetic shift of a signed 64-bit value.
\<close>

type_synonym BigmapHistoryCache = "(64 word \<times> BigmapHistory) list"

definition makeKey :: "int \<Rightarrow> int \<Rightarrow> 64 word" where
  "makeKey i height = push_bit 32 (word_of_int i) OR word_of_int height"

definition key_id :: "64 word \<Rightarrow> int" where
  "key_id v = sint (signed_drop_bit 32 v)"

definition key_height :: "64 word \<Rightarrow> int" where
  "key_height v = sint (v AND 0xffffffff)"

definition Get :: "BigmapHistoryCache \<Rightarrow> int \<Rightarrow> int \<Rightarrow> BigmapHistory option" where
  "Get c i height = map_of c (makeKey i height)"

fun GetBest_loop :: "64 word list \<Rightarrow> int \<Rightarrow> int \<Rightarrow> int \<Rightarrow> int" where
  "GetBest_loop [] i height bestHeight = bestHeight"
| "GetBest_loop (v # vs) i height bestHeight =
     (if key_id v \<noteq> i then GetBest_loop vs i height bestHeight
      else let keyHeight = key_height v in
        if keyHeight > height then GetBest_loop vs i height bestHeight
        else if bestHeight < keyHeight then GetBest_loop vs i height keyHeight
        else GetBest_loop vs i height bestHeight)"

definition GetBest :: "BigmapHistoryCache \<Rightarrow> int \<Rightarrow> int \<Rightarrow> BigmapHistory option" where
  "GetBest c i height =
     (let bestHeight = GetBest_loop (map fst c) i height 0 in
      if bestHeight = 0 then None else Get c i bestHeight)"

text \<open>The heights of the keys of \<open>i\<close> that the loop of \<open>GetBest\<close> considers.\<close>

definition cand :: "64 word list \<Rightarrow> int \<Rightarrow> int \<Rightarrow> int set" where
  "cand ks i height = {key_height k | k. k \<in> set ks \<and> key_id k = i \<and> key_height k \<le> height}"

subsection \<open>Building and rolling forward snapshots\<close>

datatype DiffAction = DiffActionAlloc | DiffActionCopy | DiffActionUpdate | DiffActionRemove

text \<open>
  \<open>model.BigmapUpdate\<close>: one row of the update log, with the fields the code reads
  (operation id and timestamp are left out).
\<close>

record BigmapUpdate =
  u_RowId :: nat
  u_BigmapId :: int
  u_KeyId :: "64 word"
  u_Action :: DiffAction
  u_Height :: int
  u_Key :: bytes
  u_Value :: bytes

text \<open>
  Modelled from the spec: \<open>BigmapUpdate.ToKV\<close> is not part of the sources at hand.  It
  synthesises a live value from the payload of an update row; the row id is not yet assigned.
\<close>

definition ToKV :: "BigmapUpdate \<Rightarrow> BigmapValue" where
  "ToKV u = \<lparr> v_RowId = 0, v_BigmapId = u_BigmapId u, v_Height = u_Height u,
              v_KeyId = u_KeyId u, v_Key = u_Key u, v_Value = u_Value u \<rparr>"

text \<open>
  The transient \<open>kvStore\<close> is a Go map from key id to live value, here an association list
  with distinct keys.  The callback of the stream, for one row of the update log:
\<close>

type_synonym kvStore = "(64 word \<times> BigmapValue) list"

definition replay_step :: "kvStore \<Rightarrow> BigmapUpdate \<Rightarrow> kvStore" where
  "replay_step kv upd =
     (case u_Action upd of
        DiffActionAlloc \<Rightarrow> kv
      | DiffActionCopy \<Rightarrow> kv
      | DiffActionUpdate \<Rightarrow> AList.update (u_KeyId upd) (ToKV upd) kv
      | DiffActionRemove \<Rightarrow> AList.delete (u_KeyId upd) kv)"

text \<open>
  Compiling the store into the compact form.  Go ranges over the map in an order of the
  runtime's choice: the list of values is given in that order.  Offsets are \<open>uint32\<close>.
\<close>

definition compile_step ::
  "32 word list \<times> 32 word list \<times> bytes \<Rightarrow> BigmapValue \<Rightarrow> 32 word list \<times> 32 word list \<times> bytes" where
  "compile_step acc v =
     (case acc of (ko, vo, d) \<Rightarrow>
        let ko' = ko @ [word_of_nat (length d)];
            d1 = d @ v_Key v;
            vo' = vo @ [word_of_nat (length d1)];
            d2 = d1 @ v_Value v
        in (ko', vo', d2))"

definition compile_hist :: "int \<Rightarrow> int \<Rightarrow> BigmapValue list \<Rightarrow> BigmapHistory" where
  "compile_hist i height vs =
     (case foldl compile_step ([], [], []) vs of (ko, vo, d) \<Rightarrow>
        \<lparr> h_BigmapId = i, h_Height = height, KeyOffsets = ko, ValueOffsets = vo, Data = d \<rparr>)"

text \<open>
  \<open>Build\<close>: the rows of the update table with the id and a height up to the requested one,
  in the order of the table (ascending row id), replayed on the empty store.  \<open>ord\<close> is the
  order in which the runtime ranges over the resulting map.  The store is taken not to fail.
\<close>

definition Build_hist ::
  "(kvStore \<Rightarrow> BigmapValue list) \<Rightarrow> BigmapUpdate list \<Rightarrow> int \<Rightarrow> int \<Rightarrow> BigmapHistory" where
  "Build_hist ord updates i height =
     compile_hist i height
       (ord (foldl replay_step []
          (filter (\<lambda>u. u_BigmapId u = i \<and> u_Height u \<le> height) updates)))"

definition Build ::
  "(kvStore \<Rightarrow> BigmapValue list) \<Rightarrow> BigmapHistoryCache \<Rightarrow> BigmapUpdate list \<Rightarrow> int \<Rightarrow> int
     \<Rightarrow> BigmapHistory \<times> BigmapHistoryCache" where
  "Build ord c updates i height =
     (let hist = Build_hist ord updates i height
      in (hist, AList.update (makeKey i height) hist c))"

text \<open>\<open>Update\<close>: unpacking entry \<open>i\<close> of the cached snapshot into the store.\<close>

definition Update_item :: "env \<Rightarrow> BigmapHistory \<Rightarrow> nat \<Rightarrow> error + 64 word \<times> BigmapValue" where
  "Update_item E hist i =
     bindE (index (KeyOffsets hist) (int i)) (\<lambda>ko.
     bindE (index (ValueOffsets hist) (int i)) (\<lambda>vo.
     let kStart = uint ko; kEnd = uint vo; vStart = kEnd in
     bindE (if int i < Len hist - 1
            then bindE (index (KeyOffsets hist) (int i + 1)) (\<lambda>ko'. Inr (uint ko'))
            else Inr (int (length (Data hist)))) (\<lambda>vEnd.
     bindE (slice (Data hist) kStart kEnd) (\<lambda>k.
     let kid = model_GetKeyId E (h_BigmapId hist) (micheline_KeyHash E k) in
     bindE (slice (Data hist) vStart vEnd) (\<lambda>v.
     Inr (kid, \<lparr> v_RowId = i + 1,
                 v_BigmapId = h_BigmapId hist,
                 v_Height = 0,
                 v_KeyId = kid,
                 v_Key = k,
                 v_Value = v \<rparr>))))))"

fun Update_seed :: "env \<Rightarrow> BigmapHistory \<Rightarrow> nat list \<Rightarrow> kvStore \<Rightarrow> error + kvStore" where
  "Update_seed E hist [] kv = Inr kv"
| "Update_seed E hist (i # is) kv =
     bindE (Update_item E hist i) (\<lambda>(kid, v). Update_seed E hist is (AList.update kid v kv))"

definition Update_hist ::
  "env \<Rightarrow> (kvStore \<Rightarrow> BigmapValue list) \<Rightarrow> BigmapUpdate list \<Rightarrow> BigmapHistory \<Rightarrow> int
     \<Rightarrow> error + BigmapHistory" where
  "Update_hist E ord updates hist height =
     bindE (Update_seed E hist [0 ..< length (KeyOffsets hist)] []) (\<lambda>kv.
     Inr (compile_hist (h_BigmapId hist) height
       (ord (foldl replay_step kv
          (filter (\<lambda>u. u_BigmapId u = h_BigmapId hist \<and> u_Height u > h_Height hist
                        \<and> u_Height u \<le> height) updates)))))"

definition Update ::
  "env \<Rightarrow> (kvStore \<Rightarrow> BigmapValue list) \<Rightarrow> BigmapHistoryCache \<Rightarrow> BigmapUpdate list
     \<Rightarrow> BigmapHistory \<Rightarrow> int \<Rightarrow> error + BigmapHistory \<times> BigmapHistoryCache" where
  "Update E ord c updates hist height =
     bindE (Update_hist E ord updates hist height) (\<lambda>hist2.
     Inr (hist2, AList.update (makeKey (h_BigmapId hist2) height) hist2 c))"

text \<open>The live key/value pairs that a snapshot holds, and the payload of a live value.\<close>

definition hist_pairs :: "BigmapHistory \<Rightarrow> (bytes \<times> bytes) list" where
  "hist_pairs h = map (\<lambda>j. (hist_key h j, hist_value h j)) [0 ..< length (KeyOffsets h)]"

definition kv_pair :: "BigmapValue \<Rightarrow> bytes \<times> bytes" where
  "kv_pair v = (v_Key v, v_Value v)"

definition payload_size :: "BigmapUpdate list \<Rightarrow> nat" where
  "payload_size us = (\<Sum>u\<leftarrow>us. length (u_Key u) + length (u_Value u))"

text \<open>
  The offsets that compiling produces, as natural numbers: entry \<open>j\<close> starts where the
  bytes of the entries before it end.
\<close>

definition kv_bytes :: "BigmapValue \<Rightarrow> bytes" where
  "kv_bytes v = v_Key v @ v_Value v"

fun key_offs :: "nat \<Rightarrow> BigmapValue list \<Rightarrow> nat list" where
  "key_offs b [] = []"
| "key_offs b (v # vs) = b # key_offs (b + length (kv_bytes v)) vs"

fun value_offs :: "nat \<Rightarrow> BigmapValue list \<Rightarrow> nat list" where
  "value_offs b [] = []"
| "value_offs b (v # vs) = (b + length (v_Key v)) # value_offs (b + length (kv_bytes v)) vs"

definition kv_size :: "BigmapValue list \<Rightarrow> nat" where
  "kv_size vs = length (concat (map kv_bytes vs))"

text \<open>The store read as a map from key id to the payload of the live value.\<close>

definition kv_view :: "kvStore \<Rightarrow> 64 word \<rightharpoonup> bytes \<times> bytes" where
  "kv_view kv = map_option kv_pair \<circ> map_of kv"

text \<open>Every live value of the store is filed under the key id of its own key.\<close>

definition kv_keyed :: "env \<Rightarrow> int \<Rightarrow> kvStore \<Rightarrow> bool" where
  "kv_keyed E i kv \<longleftrightarrow>
     list_all (\<lambda>(k, v). k = model_GetKeyId E i (micheline_KeyHash E (v_Key v))) kv"

section \<open>Example inputs\<close>

definition E0 :: env where
  "E0 = \<lparr> micheline_KeyHash = (\<lambda>k. k),
          model_GetKeyId = (\<lambda>i h. word_of_nat (length h)),
          hash_IsValid = (\<lambda>h. h \<noteq> []) \<rparr>"

definition hist0 :: BigmapHistory where
  "hist0 = \<lparr> h_BigmapId = 1, h_Height = 0, KeyOffsets = [], ValueOffsets = [], Data = [] \<rparr>"

definition hist1 :: BigmapHistory where
  "hist1 = \<lparr> h_BigmapId = 1, h_Height = 5, KeyOffsets = [0], ValueOffsets = [2],
             Data = [1, 2, 3] \<rparr>"

definition hist2 :: BigmapHistory where
  "hist2 = \<lparr> h_BigmapId = 1, h_Height = 5, KeyOffsets = [0, 3], ValueOffsets = [1, 4],
             Data = [1, 2, 3, 4, 5, 6] \<rparr>"

section \<open>Properties of the history cache\<close>

subsection \<open>Helper lemmas\<close>

lemma bindE_simps [simp]:
  "bindE (Inl e) f = Inl e" "bindE (Inr x) f = f x"
  by (simp_all add: bindE_def)

lemma mapE_Inr:
  "(\<And>x. x \<in> set xs \<Longrightarrow> f x = Inr (g x)) \<Longrightarrow> mapE f xs = Inr (map g xs)"
  by (induction xs) auto

lemma slice_unat:
  fixes a b :: "32 word"
  assumes "unat a \<le> unat b" "unat b \<le> length xs"
  shows "slice xs (uint a) (uint b) = Inr (take (unat b - unat a) (drop (unat a) xs))"
proof -
  have 1: "uint a \<le> uint b" using assms(1) by (simp add: word_le_nat_alt [symmetric] word_le_def)
  have 2: "uint b \<le> int (length xs)" using assms(2) by (metis of_nat_le_iff uint_nat)
  have 3: "nat (uint b - uint a) = unat b - unat a" by (metis nat_diff_distrib' nat_uint_eq uint_ge_0)
  show ?thesis unfolding slice_def using 1 2 3 by simp
qed

lemma hist_wf_nth:
  assumes "hist_wf h" "i < length (KeyOffsets h)"
  shows "key_start h i \<le> value_start h i" "value_start h i \<le> value_end h i"
        "value_end h i \<le> length (Data h)" "i < length (ValueOffsets h)"
  using assms by (auto simp: hist_wf_def list_all_iff)

lemma Range_item_entry:
  assumes wf: "hist_wf h" and i: "Suc j < length (KeyOffsets h)" and f: "0 \<le> from"
    and j: "j = nat (i + from)" "0 \<le> i"
  shows "Range_item E h from i = Inr (hist_entry E h j)"
proof -
  have j': "j < length (KeyOffsets h)" using i by simp
  note w = hist_wf_nth [OF wf j']
  have ij: "i + from = int j" using j f by simp
  have ve: "value_end h j = key_start h (Suc j)" using i by (simp add: value_end_def)
  have k: "slice (Data h) (uint (KeyOffsets h ! j)) (uint (ValueOffsets h ! j)) = Inr (hist_key h j)"
    unfolding hist_key_def key_start_def value_start_def
    by (rule slice_unat) (use w ve in \<open>simp_all add: key_start_def value_start_def\<close>)
  have v: "slice (Data h) (uint (ValueOffsets h ! j)) (uint (KeyOffsets h ! Suc j)) = Inr (hist_value h j)"
    unfolding hist_value_def value_start_def ve key_start_def
    by (rule slice_unat) (use w ve in \<open>simp_all add: key_start_def value_start_def\<close>)
  have 1: "index (KeyOffsets h) (int j) = Inr (KeyOffsets h ! j)" using j' by (simp add: index_def)
  have 2: "index (ValueOffsets h) (int j) = Inr (ValueOffsets h ! j)" using w(4) by (simp add: index_def)
  have "nat (int j + 1) = Suc j" by simp
  then have 3: "index (KeyOffsets h) (int j + 1) = Inr (KeyOffsets h ! Suc j)"
    using i unfolding index_def by simp
  have 4: "int j < int (length (KeyOffsets h))" using j' by simp
  show ?thesis
    unfolding Range_item_def ij 1 2 3 Let_def bindE_simps if_P [OF 4] k v
    by (simp add: hist_entry_def)
qed

lemma and_mask32: "(v :: 64 word) AND 0xffffffff = take_bit 32 v"
proof -
  have "(0xffffffff :: 64 word) = mask 32" by (simp add: mask_eq_exp_minus_1)
  then show ?thesis by (simp add: take_bit_eq_mask)
qed

lemma key_height_take: "key_height v = take_bit 32 (uint v)"
  unfolding key_height_def and_mask32
  by (rule bit_eqI) (auto simp: bit_simps)

lemma makeKey_decompose: "makeKey (key_id k) (key_height k) = k"
  unfolding makeKey_def key_height_take key_id_def
  by (rule bit_word_eqI) (auto simp: bit_simps not_le not_less)

lemma key_id_makeKey:
  assumes "- (2^31) \<le> i" "i < 2^31" "0 \<le> g" "g < 2^32"
  shows "key_id (makeKey i g) = i"
proof -
  have g: "take_bit 32 g = g" using assms by (simp add: take_bit_int_eq_self)
  have i: "signed_take_bit 31 i = i" using assms by (simp add: signed_take_bit_int_eq_self)
  have "bit (key_id (makeKey i g)) n = bit (signed_take_bit 31 i) n" for n
    unfolding makeKey_def key_id_def
    by (subst g [symmetric]) (auto simp: bit_simps not_le not_less)
  then have "key_id (makeKey i g) = signed_take_bit 31 i" by (rule bit_eqI)
  then show ?thesis by (simp only: i)
qed

lemma key_height_makeKey:
  assumes "0 \<le> g" "g < 2^32"
  shows "key_height (makeKey i g) = g"
proof -
  have g: "take_bit 32 g = g" using assms by (simp add: take_bit_int_eq_self)
  have "bit (key_height (makeKey i g)) n = bit (take_bit 32 g) n" for n
    unfolding makeKey_def key_height_take
    by (auto simp: bit_simps not_le not_less)
  then have "key_height (makeKey i g) = take_bit 32 g" by (rule bit_eqI)
  then show ?thesis by (simp only: g)
qed

lemma key_height_range: "0 \<le> key_height k" "key_height k < 2^32"
  unfolding key_height_take using take_bit_int_less_exp [of 32 "uint k"] by simp_all

lemma cand_Cons:
  "cand (k # ks) i height =
     (if key_id k = i \<and> key_height k \<le> height then insert (key_height k) (cand ks i height)
      else cand ks i height)"
  by (auto simp: cand_def)

lemma GetBest_loop_bounds:
  "b \<le> GetBest_loop ks i height b \<and>
   (GetBest_loop ks i height b = b \<or> GetBest_loop ks i height b \<in> cand ks i height) \<and>
   (\<forall>g \<in> cand ks i height. g \<le> GetBest_loop ks i height b)"
proof (induction ks arbitrary: b)
  case Nil
  then show ?case by (simp add: cand_def)
next
  case (Cons k ks)
  show ?case
    using Cons.IH [of b] Cons.IH [of "key_height k"]
    by (auto simp: cand_Cons Let_def)
qed

lemma cand_iff:
  assumes "- (2^31) \<le> i" "i < 2^31"
  shows "g \<in> cand ks i height \<longleftrightarrow> 0 \<le> g \<and> g < 2^32 \<and> g \<le> height \<and> makeKey i g \<in> set ks"
proof
  assume "g \<in> cand ks i height"
  then obtain k where k: "k \<in> set ks" "key_id k = i" "key_height k \<le> height" "g = key_height k"
    by (auto simp: cand_def)
  have "makeKey i g = k" using k makeKey_decompose [of k] by simp
  then show "0 \<le> g \<and> g < 2^32 \<and> g \<le> height \<and> makeKey i g \<in> set ks"
    using k key_height_range [of k] by simp
next
  assume a: "0 \<le> g \<and> g < 2^32 \<and> g \<le> height \<and> makeKey i g \<in> set ks"
  then have "key_id (makeKey i g) = i" "key_height (makeKey i g) = g"
    using assms by (simp_all add: key_id_makeKey key_height_makeKey)
  then show "g \<in> cand ks i height" using a unfolding cand_def by force
qed

subsection \<open>Clamped ranges\<close>

text \<open>
  Claim C10.  For a well-formed snapshot with \<open>n \<ge> 1\<close> entries and a non-negative
  \<open>from\<close>, \<open>Range from to\<close> with \<open>to < 0\<close> or \<open>to \<ge> n\<close> clamps \<open>to\<close> to
  \<open>n - 1\<close> and returns exactly the entries at the indices \<open>from\<close> to \<open>n - 2\<close>: the last
  pair of the snapshot is not in the result, and a snapshot of one entry gives the empty
  result.
\<close>

theorem Range_clamped:
  assumes wf: "hist_wf h" and n: "1 \<le> Len h" and f: "0 \<le> from"
    and cl: "to < 0 \<or> Len h \<le> to"
  shows "Range E h from to = Inr (map (hist_entry E h) [nat from ..< nat (Len h) - 1])
       \<and> (\<forall>vs. Range E h from to = Inr vs \<longrightarrow> hist_entry E h (nat (Len h) - 1) \<notin> set vs)
       \<and> (Len h = 1 \<longrightarrow> Range E h from to = Inr [])"
proof -
  let ?n = "length (KeyOffsets h)"
  have R: "Range E h from to = Inr (map (hist_entry E h) [nat from ..< nat (Len h) - 1])"
  proof (cases "Len h - 1 \<le> from")
    case True
    then show ?thesis using cl by (auto simp: Range_def Len_def)
  next
    case False
    have "mapE (Range_item E h from) (map int [0 ..< nat (Len h - 1 - from)])
        = Inr (map (\<lambda>i. hist_entry E h (nat (i + from))) (map int [0 ..< nat (Len h - 1 - from)]))"
      by (rule mapE_Inr, rule Range_item_entry [OF wf _ f]) (use False f in \<open>auto simp: Len_def\<close>)
    also have "map (\<lambda>i. hist_entry E h (nat (i + from))) (map int [0 ..< nat (Len h - 1 - from)])
        = map (hist_entry E h) (map (\<lambda>k. k + nat from) [0 ..< nat (Len h - 1 - from)])"
      using f by (simp add: nat_add_distrib)
    also have "map (\<lambda>k. k + nat from) [0 ..< nat (Len h - 1 - from)] = [nat from ..< nat (Len h) - 1]"
      proof -
      have "nat (Len h - 1 - from) + nat from = nat (Len h) - 1" using False f by (simp add: Len_def)
      then show ?thesis by (simp add: map_add_upt)
    qed
    finally show ?thesis using False cl by (simp add: Range_def Let_def)
  qed
  have "hist_entry E h (nat (Len h) - 1) \<notin> set (map (hist_entry E h) [nat from ..< nat (Len h) - 1])"
    by (auto simp: hist_entry_def)
  with R show ?thesis by (auto simp: Len_def)
qed

theorem Range_clamped_witness:
  "Range E0 hist2 0 (- 1) = Inr [hist_entry E0 hist2 0] \<and> Range E0 hist1 0 5 = Inr []"
proof -
  have 2: "hist_wf hist2" "1 \<le> Len hist2" "(- 1 :: int) < 0 \<or> Len hist2 \<le> - 1"
    by (simp_all add: hist_wf_def hist2_def Len_def key_start_def value_start_def
        value_end_def upt_rec)
  have 1: "hist_wf hist1" "1 \<le> Len hist1" "(5 :: int) < 0 \<or> Len hist1 \<le> 5"
    by (simp_all add: hist_wf_def hist1_def Len_def key_start_def value_start_def
        value_end_def upt_rec)
  have n2: "[nat 0 ..< nat (Len hist2) - 1] = [0]" by (simp add: Len_def hist2_def)
  have n1: "Len hist1 = 1" by (simp add: Len_def hist1_def)
  show ?thesis
    using Range_clamped [OF 2(1,2) order_refl 2(3), of E0]
      Range_clamped [OF 1(1,2) order_refl 1(3), of E0]
    unfolding n2 using n1 by simp
qed

subsection \<open>Best cached snapshot\<close>

text \<open>
  Claim C9 (as the code has it).  \<open>GetBest\<close> starts from \<open>bestHeight = 0\<close> and reports a
  miss when it is still \<open>0\<close> after the scan, so a snapshot cached at height \<open>0\<close> is never
  found: with only the snapshot of big-map \<open>1\<close> at height \<open>0\<close> cached, a request for
  height \<open>5\<close> is a miss although a snapshot at a height at most \<open>5\<close> is cached.
\<close>

theorem GetBest_height_zero_missed:
  "\<not> (GetBest [(makeKey 1 0, hist0)] 1 5 = None \<longleftrightarrow>
        \<not> (\<exists>g. 0 \<le> g \<and> g \<le> 5 \<and> makeKey 1 g \<in> fst ` set [(makeKey 1 0, hist0)]))"
proof -
  have "GetBest [(makeKey 1 0, hist0)] 1 5 = None"
    by (simp add: GetBest_def key_id_def key_height_def makeKey_def)
  moreover have "\<exists>g::int. 0 \<le> g \<and> g \<le> 5 \<and> makeKey 1 g \<in> fst ` set [(makeKey 1 0, hist0)]"
    by (rule exI [of _ 0]) simp
  ultimately show ?thesis by blast
qed

text \<open>
  Claim C9, amended.  For an id that fits the packing of the cache key (a signed 32-bit
  value), \<open>GetBest\<close> returns the cached snapshot of that id whose height is the greatest
  cached height \<open>g\<close> with \<open>0 < g \<le> height\<close>, and reports a miss exactly when no snapshot
  of that id is cached at such a height.
\<close>

theorem GetBest_greatest_positive:
  assumes "- (2^31) \<le> i" "i < 2^31"
  shows "case GetBest c i height of
           None \<Rightarrow> \<forall>g. 0 < g \<and> g < 2^32 \<and> g \<le> height \<longrightarrow> makeKey i g \<notin> fst ` set c
         | Some s \<Rightarrow> \<exists>g. 0 < g \<and> g < 2^32 \<and> g \<le> height \<and> map_of c (makeKey i g) = Some s \<and>
              (\<forall>g'. 0 \<le> g' \<and> g' < 2^32 \<and> g' \<le> height \<and> makeKey i g' \<in> fst ` set c \<longrightarrow> g' \<le> g)"
proof -
  let ?ks = "map fst c"
  let ?b = "GetBest_loop ?ks i height 0"
  note B = GetBest_loop_bounds [of 0 ?ks i height]
  note C = cand_iff [OF assms, of _ ?ks height]
  show ?thesis
  proof (cases "?b = 0")
    case True
    have "makeKey i g \<notin> fst ` set c" if "0 < g \<and> g < 2^32 \<and> g \<le> height" for g
    proof
      assume "makeKey i g \<in> fst ` set c"
      then have "g \<in> cand ?ks i height" using that C [of g] by simp
      then have "g \<le> ?b" using B by blast
      then show False using True that by simp
    qed
    then show ?thesis using True by (simp add: GetBest_def)
  next
    case False
    then have in_c: "?b \<in> cand ?ks i height" and pos: "0 < ?b" using B by auto
    then have k: "0 \<le> ?b \<and> ?b < 2^32 \<and> ?b \<le> height \<and> makeKey i ?b \<in> set ?ks"
      using C [of ?b] by simp
    then obtain s where s: "map_of c (makeKey i ?b) = Some s"
      by (metis domD dom_map_of_conv_image_fst set_map)
    have "g' \<le> ?b" if "0 \<le> g' \<and> g' < 2^32 \<and> g' \<le> height \<and> makeKey i g' \<in> fst ` set c" for g'
      using that C [of g'] B by simp
    then show ?thesis using False s k pos by (auto simp: GetBest_def Get_def Let_def)
  qed
qed

theorem GetBest_greatest_positive_witness:
  "- (2^31) \<le> (1::int) \<and> (1::int) < 2^31 \<and>
   GetBest [(makeKey 1 3, hist0), (makeKey 1 7, hist0 \<lparr> h_Height := 7 \<rparr>), (makeKey 2 4, hist0)] 1 5 = Some hist0"
  using GetBest_greatest_positive [where i = 1 and height = 5
      and c = "[(makeKey 1 3, hist0), (makeKey 1 7, hist0 \<lparr> h_Height := 7 \<rparr>), (makeKey 2 4, hist0)]"]
  by (simp add: GetBest_def Get_def key_id_def key_height_def makeKey_def)

end
